theory Spec2Isabelle
  imports Complex_Main "HOL-Library.Multiset" "HOL-Library.Sublist"
begin

section \<open>Data model\<close>

text \<open>
  Messages are Python strings: sequences of Unicode code points. A code point is modelled
  as a \<open>nat\<close> and a string as the list of its code points; \<open>str\<close> writes a literal.

  The two message totals and the per-word tallies are Python integers that start at 0 and
  are only ever changed by \<open>+= 1\<close>; they are modelled as \<open>nat\<close>.

  The conditional probabilities and the logarithmic scores are Python floats. Sums,
  differences, quotients and logarithms of floats are modelled as the exact real
  operations (rounding is not part of the model). \<open>math.exp\<close> is modelled with the range
  of a double: it raises \<open>OverflowError\<close> above the largest double and returns 0.0 where
  the exponential rounds to zero; a float division by 0.0 raises \<open>ZeroDivisionError\<close>.

  A Python \<open>dict\<close> keeps its keys in insertion order and is modelled as an association
  list. Two dicts are equal in Python when they map the same keys to the same values,
  whatever the order: that is equality of \<open>map_of\<close>.
\<close>

datatype error = ValueError | ZeroDivisionError | OverflowError

type_synonym py_str = "nat list"

definition str :: "string \<Rightarrow> py_str" where
  "str s = map of_char s"

type_synonym 'v dict = "(py_str \<times> 'v) list"

record spam_filter =
  number_of_spam_messages :: nat
  number_of_non_spam_messages :: nat
  words_count :: "(nat \<times> nat) dict"
  words_probabilities :: "(real \<times> real) dict"

text \<open>\<open>SpamFilter.__init__\<close>: both totals 0, both dictionaries empty.\<close>

definition init :: spam_filter where
  "init = \<lparr> number_of_spam_messages = 0, number_of_non_spam_messages = 0,
            words_count = [], words_probabilities = [] \<rparr>"

text \<open>
  \<open>d[k]\<close> on a \<open>defaultdict\<close> followed by an update in place of the value found there:
  an absent key is first inserted (at the end) with the default value.
\<close>

fun dict_modify :: "'v \<Rightarrow> py_str \<Rightarrow> ('v \<Rightarrow> 'v) \<Rightarrow> 'v dict \<Rightarrow> 'v dict" where
  "dict_modify dflt k f [] = [(k, f dflt)]"
| "dict_modify dflt k f ((k', v) # d) =
     (if k' = k then (k', f v) # d else (k', v) # dict_modify dflt k f d)"

section \<open>Tokenizer\<close>

text \<open>
  The character class \<open>[a-z0-9']\<close> under \<open>re.IGNORECASE\<close> on a \<open>str\<close> pattern: the
  ASCII letters of both cases, the digits, the apostrophe (code 39), and the four further
  letters that Python's case-insensitive matching adds to \<open>[a-z]\<close>: U+0130 (capital I
  with dot, 304), U+0131 (dotless i, 305), U+017F (long s, 383) and U+212A (Kelvin
  sign, 8490).
\<close>

definition is_word_char :: "nat \<Rightarrow> bool" where
  "is_word_char n =
     ((97 \<le> n \<and> n \<le> 122) \<or> (65 \<le> n \<and> n \<le> 90) \<or> (48 \<le> n \<and> n \<le> 57) \<or> n = 39 \<or>
      n = 304 \<or> n = 305 \<or> n = 383 \<or> n = 8490)"

text \<open>
  \<open>re.findall(r"[a-z0-9']+", message, re.IGNORECASE)\<close>: the non-overlapping matches from
  left to right; \<open>+\<close> is greedy, so each match is a maximal run of class characters.
\<close>

function findall :: "py_str \<Rightarrow> py_str list" where
  "findall [] = []"
| "findall (c # cs) =
     (if is_word_char c
      then takeWhile is_word_char (c # cs) # findall (dropWhile is_word_char cs)
      else findall cs)"
  by pat_completeness auto
termination
  by (relation "measure length") (auto simp: length_dropWhile_le less_Suc_eq_le)

text \<open>
  \<open>word.lower()\<close>. The code lowers matched words only, so the characters it meets are
  those of the class: A to Z go to a to z, U+0130 goes to the two code points i (105) and
  combining dot above (U+0307, 775), the Kelvin sign goes to k (107), and the lower case
  letters, the digits, the apostrophe, dotless i and long s stay as they are.
\<close>

definition lower_cp :: "nat \<Rightarrow> py_str" where
  "lower_cp n =
     (if 65 \<le> n \<and> n \<le> 90 then [n + 32]
      else if n = 304 then [105, 775]
      else if n = 8490 then [107]
      else [n])"

definition lower :: "py_str \<Rightarrow> py_str" where
  "lower word = concat (map lower_cp word)"

text \<open>
  \<open>SpamFilter._tokenize_words\<close> returns a Python \<open>set\<close>. The model returns the elements
  of that set as a duplicate-free list; the set itself is
  \<open>set (tokenize_words message)\<close>. Python leaves the iteration order of a set open; the
  loops below that iterate over it are shown not to depend on it.
\<close>

definition tokenize_words :: "py_str \<Rightarrow> py_str list" where
  "tokenize_words message = remdups (map lower (findall message))"

section \<open>Training\<close>

text \<open>
  The inner loop body of \<open>_add_messages\<close>:
  \<open>self._words_count[word][0] += 1\<close> for a spam message, \<open>[1] += 1\<close> otherwise.
\<close>

definition count_word :: "bool \<Rightarrow> py_str \<Rightarrow> (nat \<times> nat) dict \<Rightarrow> (nat \<times> nat) dict" where
  "count_word is_spam word wc =
     (if is_spam then dict_modify (0, 0) word (\<lambda>(s, n). (s + 1, n)) wc
      else dict_modify (0, 0) word (\<lambda>(s, n). (s, n + 1)) wc)"

text \<open>The outer loop body of \<open>_add_messages\<close>, for one labelled message.\<close>

definition add_message :: "spam_filter \<Rightarrow> bool \<times> py_str \<Rightarrow> spam_filter" where
  "add_message m msg =
     (case msg of (is_spam, message) \<Rightarrow>
        let m1 = (if is_spam
                  then m\<lparr>number_of_spam_messages := number_of_spam_messages m + 1\<rparr>
                  else m\<lparr>number_of_non_spam_messages := number_of_non_spam_messages m + 1\<rparr>);
            words = tokenize_words message
        in m1\<lparr>words_count := fold (count_word is_spam) words (words_count m1)\<rparr>)"

text \<open>
  The loop body of \<open>_recalculate_probabilities\<close>: the two assignments to
  \<open>self._words_probabilities[word][0]\<close> and \<open>[1]\<close>, the entry being created by the
  \<open>defaultdict\<close> when the word has none yet.
\<close>

definition set_probability ::
  "nat \<Rightarrow> nat \<Rightarrow> py_str \<times> nat \<times> nat \<Rightarrow> (real \<times> real) dict \<Rightarrow> (real \<times> real) dict" where
  "set_probability n_spam n_non_spam item wp =
     (case item of (word, spam_count, non_spam_count) \<Rightarrow>
        dict_modify (0, 0) word
          (\<lambda>_. ((0.5 + real spam_count) / (1 + real n_spam),
                (0.5 + real non_spam_count) / (1 + real n_non_spam))) wp)"

definition recalculate_probabilities :: "spam_filter \<Rightarrow> spam_filter" where
  "recalculate_probabilities m =
     m\<lparr>words_probabilities :=
         fold (set_probability (number_of_spam_messages m) (number_of_non_spam_messages m))
           (words_count m) (words_probabilities m)\<rparr>"

definition add_messages :: "spam_filter \<Rightarrow> (bool \<times> py_str) list \<Rightarrow> spam_filter" where
  "add_messages m messages = recalculate_probabilities (foldl add_message m messages)"

definition train :: "spam_filter \<Rightarrow> (bool \<times> py_str) list \<Rightarrow> spam_filter" where
  "train m messages = add_messages m messages"

section \<open>Inference\<close>

text \<open>\<open>math.log\<close> raises \<open>ValueError\<close> on an argument that is not positive.\<close>

definition py_log :: "real \<Rightarrow> error + real" where
  "py_log x = (if 0 < x then Inr (ln x) else Inl ValueError)"

text \<open>
  \<open>math.exp\<close> on a double: \<open>OverflowError\<close> when the exponential rounds beyond the largest
  double, 0.0 when it rounds to zero (it is at most \<open>2^-1075\<close>, half the smallest
  positive double), and the exponential otherwise.
\<close>

definition py_exp :: "real \<Rightarrow> error + real" where
  "py_exp x =
     (if (2 - 1 / 2 ^ 53) * 2 ^ 1023 \<le> exp x then Inl OverflowError
      else if exp x \<le> 1 / 2 ^ 1075 then Inr 0
      else Inr (exp x))"

text \<open>Division of floats: \<open>ZeroDivisionError\<close> on the divisor 0.0.\<close>

definition py_div :: "real \<Rightarrow> real \<Rightarrow> error + real" where
  "py_div a b = (if b = 0 then Inl ZeroDivisionError else Inr (a / b))"

text \<open>
  The loop of \<open>probability_spam\<close> over \<open>self._words_probabilities.items()\<close>, with the two
  running scores.
\<close>

fun score_words ::
  "py_str list \<Rightarrow> (real \<times> real) dict \<Rightarrow> real \<Rightarrow> real \<Rightarrow> error + (real \<times> real)" where
  "score_words words_in_message [] spam_probability non_spam_probability =
     Inr (spam_probability, non_spam_probability)"
| "score_words words_in_message ((word, word_spam_prob, word_non_spam_prob) # items)
     spam_probability non_spam_probability =
     (if word \<in> set words_in_message
      then (case py_log word_spam_prob of Inl e \<Rightarrow> Inl e | Inr lsp \<Rightarrow>
            (case py_log word_non_spam_prob of Inl e \<Rightarrow> Inl e | Inr lnp \<Rightarrow>
               score_words words_in_message items
                 (spam_probability + lsp) (non_spam_probability + lnp)))
      else (case py_log (1.0 - word_spam_prob) of Inl e \<Rightarrow> Inl e | Inr lsp \<Rightarrow>
            (case py_log (1.0 - word_non_spam_prob) of Inl e \<Rightarrow> Inl e | Inr lnp \<Rightarrow>
               score_words words_in_message items
                 (spam_probability + lsp) (non_spam_probability + lnp))))"

text \<open>
  \<open>probability_spam\<close>. The divisors of the two priors are \<open>1 +\<close> a sum of naturals and
  cannot be zero. The last line calls \<open>math.exp(spam_probability)\<close> twice, with the same
  result; the model calls it once.
\<close>

definition probability_spam :: "spam_filter \<Rightarrow> py_str \<Rightarrow> error + real" where
  "probability_spam m message =
     (let n_spam = real (number_of_spam_messages m);
          n_non_spam = real (number_of_non_spam_messages m)
      in case py_log ((0.5 + n_spam) / (1 + n_spam + n_non_spam)) of Inl e \<Rightarrow> Inl e
         | Inr spam_probability \<Rightarrow>
      (case py_log ((0.5 + n_non_spam) / (1 + n_spam + n_non_spam)) of Inl e \<Rightarrow> Inl e
         | Inr non_spam_probability \<Rightarrow>
      (case score_words (tokenize_words message) (words_probabilities m)
              spam_probability non_spam_probability of Inl e \<Rightarrow> Inl e
         | Inr (s, n) \<Rightarrow>
      (case py_exp s of Inl e \<Rightarrow> Inl e
         | Inr exp_spam \<Rightarrow>
      (case py_exp n of Inl e \<Rightarrow> Inl e
         | Inr exp_non_spam \<Rightarrow> py_div exp_spam (exp_spam + exp_non_spam))))))"

section \<open>Splitting\<close>

text \<open>\<open>int(x)\<close> on a float: truncation towards zero.\<close>

definition py_int :: "real \<Rightarrow> int" where
  "py_int x = (if 0 \<le> x then \<lfloor>x\<rfloor> else \<lceil>x\<rceil>)"

text \<open>
  The loop of \<open>split_train_test\<close>. The random source is explicit: \<open>randint g\<close> is the
  result of \<open>random.randint(1, 100)\<close> in generator state \<open>g\<close>, with the next state.
\<close>

fun split_rows ::
  "('g \<Rightarrow> int \<times> 'g) \<Rightarrow> int \<Rightarrow> 'a list \<Rightarrow> 'g \<Rightarrow> 'a list \<Rightarrow> 'a list
     \<Rightarrow> ('a list \<times> 'a list) \<times> 'g" where
  "split_rows randint test_size_int [] g train_data test_data = ((train_data, test_data), g)"
| "split_rows randint test_size_int (row # rows) g train_data test_data =
     (case randint g of (r, g') \<Rightarrow>
        if r \<le> test_size_int
        then split_rows randint test_size_int rows g' train_data (test_data @ [row])
        else split_rows randint test_size_int rows g' (train_data @ [row]) test_data)"

text \<open>
  \<open>split_train_test\<close>. The product \<open>test_size * 100\<close> is the exact one; the float product
  can fall just below an integer (at 0.29 it gives 28), which moves the threshold by one.
  The properties proved of the split below hold for every threshold.
\<close>

definition split_train_test ::
  "('g \<Rightarrow> int \<times> 'g) \<Rightarrow> 'a list \<Rightarrow> real \<Rightarrow> 'g \<Rightarrow> error + (('a list \<times> 'a list) \<times> 'g)" where
  "split_train_test randint data test_size g =
     (if \<not> (0.99 > test_size \<and> test_size > 0.1) then Inl ValueError
      else Inr (split_rows randint (py_int (test_size * 100)) data g [] []))"

section \<open>The specification's reading of inference and of model equality\<close>

text \<open>
  The two accumulators of the specification, written as its text has them: the prior,
  and one term per token of the Word Probabilities mapping, the logarithm of the stored
  probability when the token is present in the message and of its complement when it is
  absent.
\<close>

definition spam_acc :: "spam_filter \<Rightarrow> py_str \<Rightarrow> real" where
  "spam_acc m text =
     (let total_spam = real (number_of_spam_messages m);
          total_non_spam = real (number_of_non_spam_messages m);
          present = set (tokenize_words text)
      in ln ((0.5 + total_spam) / (1 + total_spam + total_non_spam)) +
         sum_list (map (\<lambda>(token, p_spam, p_non_spam).
             if token \<in> present then ln p_spam else ln (1 - p_spam))
           (words_probabilities m)))"

definition non_spam_acc :: "spam_filter \<Rightarrow> py_str \<Rightarrow> real" where
  "non_spam_acc m text =
     (let total_spam = real (number_of_spam_messages m);
          total_non_spam = real (number_of_non_spam_messages m);
          present = set (tokenize_words text)
      in ln ((0.5 + total_non_spam) / (1 + total_spam + total_non_spam)) +
         sum_list (map (\<lambda>(token, p_spam, p_non_spam).
             if token \<in> present then ln p_non_spam else ln (1 - p_non_spam))
           (words_probabilities m)))"

text \<open>The value of \<open>math.exp\<close> on a double that is not positive: 0.0 on underflow.\<close>

definition exp_double :: "real \<Rightarrow> real" where
  "exp_double x = (if exp x \<le> 1 / 2 ^ 1075 then 0 else exp x)"

text \<open>
  The classification of the specification, with the one case the code adds: the
  normalised exponentials of the two accumulators, and \<open>ZeroDivisionError\<close> when both
  exponentials have underflowed to 0.0. It is compared with \<open>probability_spam\<close> below.
\<close>

definition classify_spec :: "spam_filter \<Rightarrow> py_str \<Rightarrow> error + real" where
  "classify_spec m text =
     (let e_spam = exp_double (spam_acc m text);
          e_non_spam = exp_double (non_spam_acc m text)
      in if e_spam + e_non_spam = 0 then Inl ZeroDivisionError
         else Inr (e_spam / (e_spam + e_non_spam)))"



text \<open>
  Two characters that the tokenizer cannot tell apart: both belong to the class and have
  the same lower case form (a letter in either case), or both are outside the class
  (separators, among them every letter that the class does not hold, in any case). Two
  texts are the same up to case when they agree in this way position by position.
\<close>

definition same_char_up_to_case :: "nat \<Rightarrow> nat \<Rightarrow> bool" where
  "same_char_up_to_case a b =
     (if is_word_char a then is_word_char b \<and> lower_cp a = lower_cp b
      else \<not> is_word_char b)"

definition same_up_to_case :: "py_str \<Rightarrow> py_str \<Rightarrow> bool" where
  "same_up_to_case t1 t2 = list_all2 same_char_up_to_case t1 t2"

text \<open>
  Two models hold identical Class Totals, Message Counters and Word Probabilities: the
  totals are equal and the dictionaries are equal as Python compares them.
\<close>

definition same_model :: "spam_filter \<Rightarrow> spam_filter \<Rightarrow> bool" where
  "same_model m1 m2 =
     (number_of_spam_messages m1 = number_of_spam_messages m2 \<and>
      number_of_non_spam_messages m1 = number_of_non_spam_messages m2 \<and>
      map_of (words_count m1) = map_of (words_count m2) \<and>
      map_of (words_probabilities m1) = map_of (words_probabilities m2))"

section \<open>An abstract view of the counters\<close>

text \<open>
  For the proofs, the two totals and the Message Counters read as a map: what is left of
  a model when the order of the dictionary is forgotten.
\<close>

type_synonym tally = "nat \<times> nat \<times> (py_str \<rightharpoonup> nat \<times> nat)"

definition tallies :: "spam_filter \<Rightarrow> tally" where
  "tallies m =
     (number_of_spam_messages m, number_of_non_spam_messages m, map_of (words_count m))"

text \<open>The effect of the loop body of \<open>_add_messages\<close> on that view.\<close>

definition tally_message :: "bool \<times> py_str \<Rightarrow> tally \<Rightarrow> tally" where
  "tally_message msg t =
     (case msg of (is_spam, message) \<Rightarrow> case t of (n_spam, n_non_spam, f) \<Rightarrow>
        (if is_spam then n_spam + 1 else n_spam,
         if is_spam then n_non_spam else n_non_spam + 1,
         \<lambda>w. if w \<in> set (tokenize_words message)
              then (case (case f w of None \<Rightarrow> (0, 0) | Some v \<Rightarrow> v) of
                      (s, n) \<Rightarrow> Some (if is_spam then (s + 1, n) else (s, n + 1)))
              else f w))"

text \<open>The Word Probabilities that the smoothing formula derives from the counters.\<close>

definition smoothed :: "tally \<Rightarrow> (py_str \<rightharpoonup> real \<times> real)" where
  "smoothed t =
     (case t of (n_spam, n_non_spam, f) \<Rightarrow>
        \<lambda>w. case f w of None \<Rightarrow> None
             | Some (s, n) \<Rightarrow>
                 Some ((0.5 + real s) / (1 + real n_spam), (0.5 + real n) / (1 + real n_non_spam)))"

text \<open>No tally of a word exceeds the total of its class.\<close>

definition counts_bounded :: "tally \<Rightarrow> bool" where
  "counts_bounded t =
     (case t of (n_spam, n_non_spam, f) \<Rightarrow>
        \<forall>w s n. f w = Some (s, n) \<longrightarrow> s \<le> n_spam \<and> n \<le> n_non_spam)"

text \<open>
  The invariant of the models that training builds: both dictionaries have each key once,
  the Word Probabilities are the smoothed counters, and the tallies are counts_bounded.
\<close>

definition model_ok :: "spam_filter \<Rightarrow> bool" where
  "model_ok m =
     (distinct (map fst (words_count m)) \<and>
      distinct (map fst (words_probabilities m)) \<and>
      map_of (words_probabilities m) = smoothed (tallies m) \<and>
      counts_bounded (tallies m))"

section \<open>Properties of the tokenizer\<close>

lemma distinct_tokenize_words: "distinct (tokenize_words message)"
  by (simp add: tokenize_words_def)

text \<open>
  C3. The claim has the dash among the token characters, as the docstring of
  \<open>_tokenize_words\<close> has; the regular expression of the code leaves it out. The tokenizer
  splits \<open>e-mail\<close> at the dash into the two tokens \<open>e\<close> and \<open>mail\<close>, finds no token in a
  run of dashes, and does take a lone apostrophe as a token.
\<close>

theorem tokenize_words_splits_at_dash:
  "set (tokenize_words (str ''e-mail'')) = {str ''e'', str ''mail''} \<and>
   tokenize_words (str ''--'') = [] \<and>
   tokenize_words (str [CHR 0x27]) = [str [CHR 0x27]]"
  by code_simp

text \<open>
  Two texts that are the same up to case have the same tokens: the runs of class
  characters sit at the same positions, and lowering makes them equal.
\<close>

lemma same_char_is_word_char:
  "same_char_up_to_case a b \<Longrightarrow> is_word_char a = is_word_char b"
  by (auto simp: same_char_up_to_case_def split: if_splits)

lemma list_all2_takeWhile:
  assumes "list_all2 R xs ys" "\<And>a b. R a b \<Longrightarrow> P a = P b"
  shows "list_all2 R (takeWhile P xs) (takeWhile P ys)"
  using assms(1)
proof (induction rule: list_all2_induct)
  case Nil
  show ?case by simp
next
  case (Cons x xs y ys)
  then show ?case using assms(2)[of x y] by simp
qed

lemma list_all2_dropWhile:
  assumes "list_all2 R xs ys" "\<And>a b. R a b \<Longrightarrow> P a = P b"
  shows "list_all2 R (dropWhile P xs) (dropWhile P ys)"
  using assms(1)
proof (induction rule: list_all2_induct)
  case Nil
  show ?case by simp
next
  case (Cons x xs y ys)
  then show ?case using assms(2)[of x y] by simp
qed

lemma lower_same_up_to_case:
  assumes "list_all2 same_char_up_to_case w1 w2" "\<forall>c \<in> set w1. is_word_char c"
  shows "lower w1 = lower w2"
  using assms
proof (induction rule: list_all2_induct)
  case Nil
  show ?case by simp
next
  case (Cons x xs y ys)
  then have "lower_cp x = lower_cp y" by (simp add: same_char_up_to_case_def)
  with Cons show ?case by (simp add: lower_def)
qed

lemma findall_same_up_to_case:
  "list_all2 same_char_up_to_case t1 t2 \<Longrightarrow>
   map lower (findall t1) = map lower (findall t2)"
proof (induction t1 arbitrary: t2 rule: findall.induct)
  case 1
  then show ?case by simp
next
  case (2 c cs)
  from "2.prems" obtain d ds where t2: "t2 = d # ds"
    and cd: "same_char_up_to_case c d" and rest: "list_all2 same_char_up_to_case cs ds"
    by (auto simp: list_all2_Cons1)
  from cd have w: "is_word_char c = is_word_char d" by (rule same_char_is_word_char)
  show ?case
  proof (cases "is_word_char c")
    case True
    have run: "list_all2 same_char_up_to_case
        (takeWhile is_word_char (c # cs)) (takeWhile is_word_char (d # ds))"
      using "2.prems" t2 by (intro list_all2_takeWhile same_char_is_word_char) simp_all
    have "lower (takeWhile is_word_char (c # cs)) = lower (takeWhile is_word_char (d # ds))"
      by (rule lower_same_up_to_case[OF run]) (auto dest: set_takeWhileD)
    moreover have "list_all2 same_char_up_to_case
        (dropWhile is_word_char cs) (dropWhile is_word_char ds)"
      using rest by (intro list_all2_dropWhile same_char_is_word_char) simp_all
    then have "map lower (findall (dropWhile is_word_char cs)) =
        map lower (findall (dropWhile is_word_char ds))"
      using True by (intro "2.IH"(1))
    ultimately show ?thesis using True w by (simp add: t2)
  next
    case False
    with "2.IH"(2)[OF False rest] w show ?thesis by (simp add: t2)
  qed
qed

lemma tokenize_words_same_up_to_case:
  assumes "same_up_to_case t1 t2"
  shows "tokenize_words t1 = tokenize_words t2"
  using findall_same_up_to_case[of t1 t2] assms
  by (simp add: tokenize_words_def same_up_to_case_def)








section \<open>Properties of the split\<close>

text \<open>
  The loop sends the rows at some set of positions \<open>I\<close> to the test list and the rows at
  all other positions to the training list, each in the order of the input.
\<close>

lemma split_rows_nths:
  "\<exists>I g'. split_rows randint t rows g tr te = ((tr @ nths rows (- I), te @ nths rows I), g')"
proof (induction rows arbitrary: g tr te)
  case Nil
  show ?case by simp
next
  case (Cons row rows)
  obtain r g1 where rg: "randint g = (r, g1)" by (cases "randint g")
  show ?case
  proof (cases "r \<le> t")
    case True
    from Cons.IH[of g1 tr "te @ [row]"] obtain J g' where
      J: "split_rows randint t rows g1 tr (te @ [row]) =
            ((tr @ nths rows (- J), (te @ [row]) @ nths rows J), g')" by blast
    let ?I = "insert 0 (Suc ` J)"
    have a: "{j. Suc j \<in> ?I} = J" by auto
    have b: "{j. Suc j \<in> - ?I} = - J" by auto
    have "split_rows randint t (row # rows) g tr te =
            ((tr @ nths (row # rows) (- ?I), te @ nths (row # rows) ?I), g')"
      using J rg True a b by (simp add: nths_Cons)
    then show ?thesis by blast
  next
    case False
    from Cons.IH[of g1 "tr @ [row]" te] obtain J g' where
      J: "split_rows randint t rows g1 (tr @ [row]) te =
            (((tr @ [row]) @ nths rows (- J), te @ nths rows J), g')" by blast
    let ?I = "Suc ` J"
    have a: "{j. Suc j \<in> ?I} = J" by auto
    have b: "{j. Suc j \<in> - ?I} = - J" by auto
    have "split_rows randint t (row # rows) g tr te =
            ((tr @ nths (row # rows) (- ?I), te @ nths (row # rows) ?I), g')"
      using J rg False a b by (simp add: nths_Cons)
    then show ?thesis by blast
  qed
qed

lemma mset_nths_compl: "mset (nths xs (- I)) + mset (nths xs I) = mset xs"
proof (induction xs arbitrary: I)
  case Nil
  show ?case by simp
next
  case (Cons x xs)
  have b: "- {j. Suc j \<in> I} = {j. Suc j \<notin> I}" by auto
  show ?case using Cons[of "{j. Suc j \<in> I}"] by (simp add: nths_Cons b)
qed

lemma split_train_test_accepts:
  assumes "0.1 < test_size" "test_size < 0.99"
  shows "\<exists>I g'. split_train_test randint data test_size g =
           Inr ((nths data (- I), nths data I), g')"
  using assms split_rows_nths[of randint "py_int (test_size * 100)" data g "[]" "[]"]
  by (simp add: split_train_test_def)

lemma split_train_test_example:
  "split_train_test (\<lambda>g::int. (g mod 100 + 1, g + 37)) [1, 2, 3, 4::nat] 0.2 0 =
     Inr (([2, 3], [1, 4]), 148)"
  by (simp add: split_train_test_def py_int_def)

text \<open>
  C7. \<open>split_train_test\<close> raises exactly when \<open>test_size\<close> is not strictly between 0.1 and
  0.99, whatever the data and the random source; 0.05 and 1.0 are rejected with
  \<open>ValueError\<close>.
\<close>

theorem split_train_test_raises_iff:
  "(isl (split_train_test randint data test_size g) \<longleftrightarrow>
      \<not> (0.1 < test_size \<and> test_size < 0.99)) \<and>
   split_train_test randint data 0.05 g = Inl ValueError \<and>
   split_train_test randint data 1.0 g = Inl ValueError"
  by (auto simp add: split_train_test_def)

theorem split_train_test_raises_iff_witness:
  "\<not> isl (split_train_test (\<lambda>g::int. (g mod 100 + 1, g + 37)) [1, 2, 3, 4::nat] 0.2 0) \<and>
   isl (split_train_test (\<lambda>g::int. (g mod 100 + 1, g + 37)) [1, 2, 3, 4::nat] 0.1 0)"
  using split_train_test_raises_iff[of "\<lambda>g::int. (g mod 100 + 1, g + 37)" "[1, 2, 3, 4::nat]" "0.2" 0]
    split_train_test_raises_iff[of "\<lambda>g::int. (g mod 100 + 1, g + 37)" "[1, 2, 3, 4::nat]" "0.1" 0]
  by simp

text \<open>
  C8. For a valid \<open>test_size\<close>, every input list and every random source,
  \<open>split_train_test\<close> returns, and the two lists it returns partition the input: the test
  list holds the rows at some set of positions, the training list the rows at all other
  positions, so together they hold every row exactly as often as the input does and their
  lengths add up to the length of the input.
\<close>

theorem split_train_test_partition:
  assumes "0.1 < test_size" "test_size < 0.99"
  shows "\<exists>train_data test_data g'.
           split_train_test randint data test_size g = Inr ((train_data, test_data), g') \<and>
           mset train_data + mset test_data = mset data \<and>
           length train_data + length test_data = length data \<and>
           (\<exists>I. train_data = nths data (- I) \<and> test_data = nths data I)"
proof -
  from split_train_test_accepts[OF assms, of randint data g] obtain I g' where
    r: "split_train_test randint data test_size g = Inr ((nths data (- I), nths data I), g')"
    by blast
  have m: "mset (nths data (- I)) + mset (nths data I) = mset data" by (rule mset_nths_compl)
  have "size (mset (nths data (- I)) + mset (nths data I)) = size (mset data)"
    by (simp only: m)
  then have l: "length (nths data (- I)) + length (nths data I) = length data" by simp
  from r m l show ?thesis by blast
qed

theorem split_train_test_partition_witness:
  "(0.1::real) < 0.2 \<and> (0.2::real) < 0.99 \<and>
   (\<exists>train_data test_data g'.
      split_train_test (\<lambda>g::int. (g mod 100 + 1, g + 37)) [1, 2, 3, 4::nat] 0.2 0 =
        Inr ((train_data, test_data), g') \<and>
      mset train_data + mset test_data = mset [1, 2, 3, 4::nat] \<and>
      length train_data + length test_data = length [1, 2, 3, 4::nat] \<and>
      (\<exists>I. train_data = nths [1, 2, 3, 4::nat] (- I) \<and> test_data = nths [1, 2, 3, 4::nat] I))"
proof -
  have a: "(0.1::real) < 0.2" and b: "(0.2::real) < 0.99" by simp_all
  from split_train_test_partition[OF a b,
      of "\<lambda>g::int. (g mod 100 + 1, g + 37)" "[1, 2, 3, 4::nat]" 0] a b
  show ?thesis by (intro conjI)
qed

text \<open>
  C10. The input list is only read (the model takes it as a value and returns two new
  lists), and each returned list is a subsequence of the input: it keeps the relative
  order of the rows.
\<close>

theorem split_train_test_subseq:
  assumes "split_train_test randint data test_size g = Inr ((train_data, test_data), g')"
  shows "subseq train_data data \<and> subseq test_data data"
proof -
  from assms have ok: "0.1 < test_size" "test_size < 0.99"
    by (auto simp: split_train_test_def split: if_splits)
  from split_train_test_accepts[OF ok, of randint data g] assms obtain I where
    "train_data = nths data (- I)" "test_data = nths data I" by auto
  then show ?thesis by (auto simp: subseq_conv_nths)
qed

theorem split_train_test_subseq_witness:
  "split_train_test (\<lambda>g::int. (g mod 100 + 1, g + 37)) [1, 2, 3, 4::nat] 0.2 0 =
     Inr (([2, 3], [1, 4]), 148) \<and>
   subseq [2, 3] [1, 2, 3, 4::nat] \<and> subseq [1, 4] [1, 2, 3, 4::nat]"
proof -
  have "subseq [2, 3] [1, 2, 3, 4::nat] \<and> subseq [1, 4] [1, 2, 3, 4::nat]"
    by (rule split_train_test_subseq[OF split_train_test_example])
  with split_train_test_example show ?thesis by (rule conjI)
qed

section \<open>Properties of the dictionaries\<close>

text \<open>Read as a map, an update through the \<open>defaultdict\<close> changes the one key.\<close>

lemma map_of_dict_modify:
  "map_of (dict_modify dflt k f d) =
     (map_of d)(k \<mapsto> f (case map_of d k of None \<Rightarrow> dflt | Some v \<Rightarrow> v))"
  by (induction d) (auto simp: fun_eq_iff)

lemma keys_dict_modify:
  "fst ` set (dict_modify dflt k f d) = insert k (fst ` set d)"
  by (simp add: dom_map_of_conv_image_fst[symmetric] map_of_dict_modify)

lemma distinct_dict_modify:
  "distinct (map fst d) \<Longrightarrow> distinct (map fst (dict_modify dflt k f d))"
  by (induction d) (auto simp: keys_dict_modify)

lemma map_of_count_word:
  "map_of (count_word is_spam word wc) =
     (map_of wc)(word \<mapsto>
        (case (case map_of wc word of None \<Rightarrow> (0, 0) | Some v \<Rightarrow> v) of
           (s, n) \<Rightarrow> if is_spam then (s + 1, n) else (s, n + 1)))"
  by (simp add: count_word_def map_of_dict_modify split: prod.splits)

text \<open>
  The inner loop of \<open>_add_messages\<close> over the tokens of one message: each token of the
  message has its tally raised by one, every other entry is kept.
\<close>

lemma map_of_fold_count_word:
  assumes "distinct ws"
  shows "map_of (fold (count_word is_spam) ws wc) =
     (\<lambda>w. if w \<in> set ws
          then (case (case map_of wc w of None \<Rightarrow> (0, 0) | Some v \<Rightarrow> v) of
                  (s, n) \<Rightarrow> Some (if is_spam then (s + 1, n) else (s, n + 1)))
          else map_of wc w)"
  using assms
proof (induction ws arbitrary: wc)
  case Nil
  show ?case by simp
next
  case (Cons x ws)
  from Cons.prems have x: "x \<notin> set ws" and d: "distinct ws" by simp_all
  show ?case
    unfolding fold_simps Cons.IH[OF d] map_of_count_word
    using x by (auto simp: fun_eq_iff split: prod.splits option.splits)
qed

text \<open>So the dictionary the loop builds does not depend on the order in which the set of
  tokens is iterated.\<close>

lemma fold_count_word_order_irrelevant:
  assumes "distinct ws" "distinct ws'" "set ws = set ws'"
  shows "map_of (fold (count_word is_spam) ws wc) = map_of (fold (count_word is_spam) ws' wc)"
  by (simp add: map_of_fold_count_word assms)

lemma distinct_fold_count_word:
  "distinct (map fst wc) \<Longrightarrow> distinct (map fst (fold (count_word is_spam) ws wc))"
  by (induction ws arbitrary: wc) (simp_all add: count_word_def distinct_dict_modify)

section \<open>Properties of training\<close>

subsection \<open>The counters\<close>

lemma tallies_add_message: "tallies (add_message m msg) = tally_message msg (tallies m)"
proof -
  obtain is_spam message where msg: "msg = (is_spam, message)" by (cases msg)
  show ?thesis
    by (cases is_spam)
       (simp_all add: msg tallies_def tally_message_def add_message_def Let_def
          map_of_fold_count_word[OF distinct_tokenize_words])
qed

lemma distinct_add_message:
  "distinct (map fst (words_count m)) \<Longrightarrow> distinct (map fst (words_count (add_message m msg)))"
  by (cases msg) (simp add: add_message_def Let_def distinct_fold_count_word)

lemma probabilities_add_message:
  "words_probabilities (add_message m msg) = words_probabilities m"
  by (cases msg) (simp add: add_message_def Let_def)

text \<open>Two messages can be counted in either order.\<close>

lemma tally_message_commute:
  "tally_message x \<circ> tally_message y = tally_message y \<circ> tally_message x"
proof
  fix t :: tally
  obtain bx tx where x: "x = (bx, tx)" by (cases x)
  obtain "by" ty where y: "y = (by, ty)" by (cases y)
  obtain a b f where t: "t = (a, b, f)" by (cases t)
  show "(tally_message x \<circ> tally_message y) t = (tally_message y \<circ> tally_message x) t"
    by (auto simp: x y t tally_message_def fun_eq_iff split: option.splits prod.splits)
qed

lemma tallies_foldl_add_message:
  "tallies (foldl add_message m msgs) = fold tally_message msgs (tallies m)"
  by (induction msgs arbitrary: m) (simp_all add: tallies_add_message)

lemma distinct_foldl_add_message:
  "distinct (map fst (words_count m)) \<Longrightarrow>
   distinct (map fst (words_count (foldl add_message m msgs)))"
  by (induction msgs arbitrary: m) (simp_all add: distinct_add_message)

lemma probabilities_foldl_add_message:
  "words_probabilities (foldl add_message m msgs) = words_probabilities m"
  by (induction msgs arbitrary: m) (simp_all add: probabilities_add_message)

lemma tallies_recalculate_probabilities: "tallies (recalculate_probabilities m) = tallies m"
  by (simp add: tallies_def recalculate_probabilities_def)

lemma tallies_train: "tallies (train m msgs) = fold tally_message msgs (tallies m)"
  by (simp add: train_def add_messages_def tallies_recalculate_probabilities
      tallies_foldl_add_message)

lemma tallies_foldl_train:
  "tallies (foldl train m batches) = fold tally_message (concat batches) (tallies m)"
  by (induction batches arbitrary: m) (simp_all add: tallies_train)

lemma fold_tally_message_perm:
  assumes "mset xs = mset ys"
  shows "fold tally_message xs = fold tally_message ys"
  by (rule fold_multiset_equiv[OF tally_message_commute assms])

lemma tally_message_keeps_keys:
  assumes "tally_message msg (a, b, f) = (a', b', f')" "f w \<noteq> None"
  shows "f' w \<noteq> None"
  using assms by (cases msg) (auto simp: tally_message_def split: prod.splits)

lemma fold_tally_message_keeps_keys:
  assumes "fold tally_message msgs (a, b, f) = (a', b', f')" "f w \<noteq> None"
  shows "f' w \<noteq> None"
  using assms
proof (induction msgs arbitrary: a b f)
  case Nil
  then show ?case by simp
next
  case (Cons msg msgs)
  obtain a1 b1 f1 where s: "tally_message msg (a, b, f) = (a1, b1, f1)"
    by (cases "tally_message msg (a, b, f)")
  from tally_message_keeps_keys[OF s Cons.prems(2)] have "f1 w \<noteq> None" .
  with Cons.IH[of a1 b1 f1] Cons.prems(1) s show ?case by simp
qed

lemma counts_bounded_tally_message: "counts_bounded t \<Longrightarrow> counts_bounded (tally_message msg t)"
proof -
  assume b: "counts_bounded t"
  obtain is_spam message where msg: "msg = (is_spam, message)" by (cases msg)
  obtain a c f where t: "t = (a, c, f)" by (cases t)
  from b have f: "\<And>w s n. f w = Some (s, n) \<Longrightarrow> s \<le> a \<and> n \<le> c"
    by (simp add: counts_bounded_def t)
  show ?thesis
    unfolding counts_bounded_def msg t tally_message_def
    by (auto split: option.splits if_splits prod.splits dest!: f)
qed

lemma counts_bounded_fold_tally_message: "counts_bounded t \<Longrightarrow> counts_bounded (fold tally_message msgs t)"
  by (induction msgs arbitrary: t) (simp_all add: counts_bounded_tally_message)

subsection \<open>The probabilities\<close>

text \<open>
  The loop of \<open>_recalculate_probabilities\<close>: every word of the Message Counters gets its
  smoothed pair, a word without counters keeps what it had.
\<close>

lemma map_of_fold_set_probability:
  assumes "distinct (map fst wc)"
  shows "map_of (fold (set_probability a b) wc wp) =
     (\<lambda>w. case map_of wc w of None \<Rightarrow> map_of wp w
          | Some (s, n) \<Rightarrow> Some ((0.5 + real s) / (1 + real a), (0.5 + real n) / (1 + real b)))"
  using assms
proof (induction wc arbitrary: wp)
  case Nil
  show ?case by simp
next
  case (Cons item wc)
  obtain k s n where item: "item = (k, s, n)" by (cases item)
  from Cons.prems have k: "map_of wc k = None" and d: "distinct (map fst wc)"
    by (simp_all add: item map_of_eq_None_iff)
  show ?case
    unfolding fold_simps Cons.IH[OF d]
    using k by (auto simp: item set_probability_def map_of_dict_modify fun_eq_iff
        split: option.splits)
qed

lemma distinct_fold_set_probability:
  "distinct (map fst wp) \<Longrightarrow> distinct (map fst (fold (set_probability a b) wc wp))"
  by (induction wc arbitrary: wp)
     (auto simp: set_probability_def distinct_dict_modify split: prod.splits)

lemma smoothing_bounds:
  fixes c t :: nat
  assumes "c \<le> t"
  shows "0 < (0.5 + real c) / (1 + real t)" and "(0.5 + real c) / (1 + real t) < 1"
  using assms by simp_all

subsection \<open>The invariant\<close>

lemma model_ok_init: "model_ok init"
  by (simp add: model_ok_def init_def tallies_def smoothed_def counts_bounded_def fun_eq_iff)

lemma model_ok_train:
  assumes "model_ok m"
  shows "model_ok (train m msgs)"
proof -
  let ?c = "foldl add_message m msgs"
  let ?m = "train m msgs"
  have wc: "words_count ?m = words_count ?c"
    and ns: "number_of_spam_messages ?m = number_of_spam_messages ?c"
    and nn: "number_of_non_spam_messages ?m = number_of_non_spam_messages ?c"
    and wp: "words_probabilities ?m =
      fold (set_probability (number_of_spam_messages ?c) (number_of_non_spam_messages ?c))
        (words_count ?c) (words_probabilities m)"
    by (simp_all add: train_def add_messages_def recalculate_probabilities_def
        probabilities_foldl_add_message)
  from assms have d0: "distinct (map fst (words_count m))"
    and p0: "distinct (map fst (words_probabilities m))"
    and s0: "map_of (words_probabilities m) = smoothed (tallies m)"
    and b0: "counts_bounded (tallies m)"
    by (simp_all add: model_ok_def)
  have d: "distinct (map fst (words_count ?c))"
    by (rule distinct_foldl_add_message[OF d0])
  have p: "distinct (map fst (words_probabilities ?m))"
    unfolding wp by (rule distinct_fold_set_probability[OF p0])
  have t: "tallies ?m = fold tally_message msgs (tallies m)" by (rule tallies_train)
  have b: "counts_bounded (tallies ?m)"
    unfolding t by (rule counts_bounded_fold_tally_message[OF b0])
  have tc: "tallies ?m = tallies ?c"
    by (simp add: tallies_def wc ns nn)
  have keys: "map_of (words_count m) w \<noteq> None \<Longrightarrow> map_of (words_count ?c) w \<noteq> None" for w
    using fold_tally_message_keeps_keys[of msgs "number_of_spam_messages m"
        "number_of_non_spam_messages m" "map_of (words_count m)"
        "number_of_spam_messages ?c" "number_of_non_spam_messages ?c"
        "map_of (words_count ?c)" w]
      tallies_foldl_add_message[of m msgs]
    by (simp add: tallies_def)
  have s: "map_of (words_probabilities ?m) = smoothed (tallies ?m)"
  proof
    fix w
    show "map_of (words_probabilities ?m) w = smoothed (tallies ?m) w"
    proof (cases "map_of (words_count ?c) w")
      case None
      have "map_of (words_count m) w = None"
      proof (rule ccontr)
        assume "map_of (words_count m) w \<noteq> None"
        from keys[OF this] None show False by simp
      qed
      then have "map_of (words_probabilities m) w = None"
        by (simp add: s0 smoothed_def tallies_def)
      with None show ?thesis
        by (simp add: wp map_of_fold_set_probability[OF d] wc ns nn smoothed_def tallies_def)
    next
      case (Some v)
      then show ?thesis
        by (cases v)
           (simp add: wp map_of_fold_set_probability[OF d] wc ns nn smoothed_def tallies_def)
    qed
  qed
  from d p s b show ?thesis by (simp add: model_ok_def wc)
qed

lemma model_ok_foldl_train: "model_ok m \<Longrightarrow> model_ok (foldl train m batches)"
  by (induction batches arbitrary: m) (simp_all add: model_ok_train)

lemma model_ok_reachable: "model_ok (foldl train init batches)"
  by (rule model_ok_foldl_train[OF model_ok_init])

lemma model_ok_probabilities:
  assumes ok: "model_ok m" and mem: "(w, p, q) \<in> set (words_probabilities m)"
  shows "0 < p \<and> p < 1 \<and> 0 < q \<and> q < 1"
proof -
  from ok have dp: "distinct (map fst (words_probabilities m))"
    and sm: "map_of (words_probabilities m) = smoothed (tallies m)"
    and bd: "counts_bounded (tallies m)"
    by (simp_all add: model_ok_def)
  from dp mem have "map_of (words_probabilities m) w = Some (p, q)" by simp
  then have "smoothed (tallies m) w = Some (p, q)" by (simp add: sm)
  then obtain s n where c: "map_of (words_count m) w = Some (s, n)"
    and p: "p = (0.5 + real s) / (1 + real (number_of_spam_messages m))"
    and q: "q = (0.5 + real n) / (1 + real (number_of_non_spam_messages m))"
    by (auto simp: smoothed_def tallies_def split: option.splits)
  from bd c have "s \<le> number_of_spam_messages m" "n \<le> number_of_non_spam_messages m"
    by (auto simp: counts_bounded_def tallies_def)
  then show ?thesis
    unfolding p q using smoothing_bounds by blast
qed

lemma model_ok_counts:
  assumes ok: "model_ok m" and mem: "(w, s, n) \<in> set (words_count m)"
  shows "s \<le> number_of_spam_messages m \<and> n \<le> number_of_non_spam_messages m"
proof -
  from ok have d: "distinct (map fst (words_count m))" and bd: "counts_bounded (tallies m)"
    by (simp_all add: model_ok_def)
  from d mem have "map_of (words_count m) w = Some (s, n)" by simp
  with bd show ?thesis by (auto simp: counts_bounded_def tallies_def)
qed

lemma same_model_of_tallies:
  assumes "model_ok m1" "model_ok m2" "tallies m1 = tallies m2"
  shows "same_model m1 m2"
  using assms by (simp add: same_model_def model_ok_def tallies_def)

text \<open>A run of the code: one spam message, then one non-spam message.\<close>

lemma train_example:
  "train (train init [(True, str ''win money now'')]) [(False, str ''meeting win'')] =
     \<lparr> number_of_spam_messages = 1, number_of_non_spam_messages = 1,
       words_count = [(str ''win'', 1, 1), (str ''money'', 1, 0), (str ''now'', 1, 0), (str ''meeting'', 0, 1)],
       words_probabilities = [(str ''win'', 3/4, 3/4), (str ''money'', 3/4, 1/4), (str ''now'', 3/4, 1/4),
         (str ''meeting'', 1/4, 3/4)] \<rparr>"
  by (simp add: train_def add_messages_def recalculate_probabilities_def add_message_def
      init_def tokenize_words_def lower_def lower_cp_def is_word_char_def count_word_def str_def
      set_probability_def)

subsection \<open>The claims on training\<close>

text \<open>
  C2. After every call of \<open>train\<close> (on a model built by any earlier calls), the totals and
  the Message Counters are those of the model with the whole batch counted, every word of
  the earlier model is still a word of the new one, and for every entry of the Message
  Counters the stored pair of probabilities is exactly
  \<open>(0.5 + spam_count) / (1 + total spam)\<close> and \<open>(0.5 + non_spam_count) / (1 + total non-spam)\<close>,
  with the totals and counts of the new model.
\<close>

theorem train_recomputes_probabilities:
  fixes batches :: "(bool \<times> py_str) list list" and messages :: "(bool \<times> py_str) list"
  defines "m \<equiv> foldl train init batches"
  defines "counted \<equiv> foldl add_message m messages"
  defines "m' \<equiv> train m messages"
  shows "number_of_spam_messages m' = number_of_spam_messages counted \<and>
         number_of_non_spam_messages m' = number_of_non_spam_messages counted \<and>
         words_count m' = words_count counted \<and>
         fst ` set (words_count m) \<subseteq> fst ` set (words_count m') \<and>
         (\<forall>(t, spam_count, non_spam_count) \<in> set (words_count m').
            map_of (words_probabilities m') t =
              Some ((0.5 + real spam_count) / (1 + real (number_of_spam_messages m')),
                    (0.5 + real non_spam_count) / (1 + real (number_of_non_spam_messages m'))))"
proof -
  have a: "number_of_spam_messages m' = number_of_spam_messages counted"
    and b: "number_of_non_spam_messages m' = number_of_non_spam_messages counted"
    and c: "words_count m' = words_count counted"
    by (simp_all add: m'_def counted_def train_def add_messages_def
        recalculate_probabilities_def)
  have ok: "model_ok m'"
    unfolding m'_def m_def by (rule model_ok_train[OF model_ok_reachable])
  have keys: "fst ` set (words_count m) \<subseteq> fst ` set (words_count m')"
  proof
    fix w assume "w \<in> fst ` set (words_count m)"
    then have "map_of (words_count m) w \<noteq> None"
      by (simp add: dom_map_of_conv_image_fst[symmetric] domIff)
    with fold_tally_message_keeps_keys[of messages "number_of_spam_messages m"
        "number_of_non_spam_messages m" "map_of (words_count m)"
        "number_of_spam_messages m'" "number_of_non_spam_messages m'"
        "map_of (words_count m')" w] tallies_train[of m messages]
    have "map_of (words_count m') w \<noteq> None"
      by (simp add: tallies_def m'_def)
    then show "w \<in> fst ` set (words_count m')"
      by (simp add: dom_map_of_conv_image_fst[symmetric] domIff)
  qed
  have probs: "map_of (words_probabilities m') t =
      Some ((0.5 + real s) / (1 + real (number_of_spam_messages m')),
            (0.5 + real n) / (1 + real (number_of_non_spam_messages m')))"
    if "(t, s, n) \<in> set (words_count m')" for t s n
  proof -
    from ok have "distinct (map fst (words_count m'))"
      and sm: "map_of (words_probabilities m') = smoothed (tallies m')"
      by (simp_all add: model_ok_def)
    with that have "map_of (words_count m') t = Some (s, n)" by simp
    then show ?thesis by (simp add: sm smoothed_def tallies_def)
  qed
  from a b c keys probs show ?thesis by blast
qed

theorem train_recomputes_probabilities_witness:
  "(str ''money'', 1, 0) \<in> set (words_count
      (train (foldl train init [[(True, str ''win money now'')]]) [(False, str ''meeting win'')])) \<and>
   map_of (words_probabilities
      (train (foldl train init [[(True, str ''win money now'')]]) [(False, str ''meeting win'')]))
     (str ''money'') = Some (3/4, 1/4)"
proof -
  let ?m' = "train (foldl train init [[(True, str ''win money now'')]]) [(False, str ''meeting win'')]"
  have e: "?m' = train (train init [(True, str ''win money now'')]) [(False, str ''meeting win'')]"
    by simp
  have mem: "(str ''money'', 1, 0) \<in> set (words_count ?m')"
    unfolding e by (simp add: train_example)
  from train_recomputes_probabilities[of "[[(True, str ''win money now'')]]" "[(False, str ''meeting win'')]"]
  have "\<forall>(t, spam_count, non_spam_count) \<in> set (words_count ?m').
            map_of (words_probabilities ?m') t =
              Some ((0.5 + real spam_count) / (1 + real (number_of_spam_messages ?m')),
                    (0.5 + real non_spam_count) / (1 + real (number_of_non_spam_messages ?m')))"
    by blast
  from bspec[OF this mem] have "map_of (words_probabilities ?m') (str ''money'') = Some (3/4, 1/4)"
    by (simp add: train_example)
  with mem show ?thesis by (rule conjI)
qed

text \<open>
  C4. Training on \<open>A\<close> and then on \<open>B\<close> gives the same totals, counters and probabilities
  as training once on \<open>A @ B\<close>; and any two ways of cutting and ordering the same
  messages into batches give the same totals, counters and probabilities.
\<close>

theorem train_cumulative:
  "same_model (train (train init A) B) (train init (A @ B)) \<and>
   (mset (concat batches1) = mset (concat batches2) \<longrightarrow>
      same_model (foldl train init batches1) (foldl train init batches2))"
proof
  have "tallies (train (train init A) B) = tallies (train init (A @ B))"
    by (simp add: tallies_train)
  then show "same_model (train (train init A) B) (train init (A @ B))"
    by (intro same_model_of_tallies model_ok_train model_ok_init)
next
  show "mset (concat batches1) = mset (concat batches2) \<longrightarrow>
      same_model (foldl train init batches1) (foldl train init batches2)"
  proof
    assume "mset (concat batches1) = mset (concat batches2)"
    then have "fold tally_message (concat batches1) = fold tally_message (concat batches2)"
      by (rule fold_tally_message_perm)
    then have "tallies (foldl train init batches1) = tallies (foldl train init batches2)"
      by (simp only: tallies_foldl_train)
    then show "same_model (foldl train init batches1) (foldl train init batches2)"
      by (intro same_model_of_tallies model_ok_reachable)
  qed
qed

theorem train_cumulative_witness:
  "mset (concat [[(True, str ''win money now'')], [(False, str ''meeting win'')]]) =
     mset (concat [[(False, str ''meeting win''), (True, str ''win money now'')]]) \<and>
   same_model (foldl train init [[(True, str ''win money now'')], [(False, str ''meeting win'')]])
     (foldl train init [[(False, str ''meeting win''), (True, str ''win money now'')]])"
proof -
  have h: "mset (concat [[(True, str ''win money now'')], [(False, str ''meeting win'')]]) =
     mset (concat [[(False, str ''meeting win''), (True, str ''win money now'')]])" by simp
  from train_cumulative[of _ _ "[[(True, str ''win money now'')], [(False, str ''meeting win'')]]"
      "[[(False, str ''meeting win''), (True, str ''win money now'')]]"] h
  show ?thesis by blast
qed

text \<open>
  C5. In every model built by calls of \<open>train\<close>, both stored probabilities of every word
  are strictly between 0 and 1 (in exact arithmetic), and no tally of a word exceeds the
  total of its class.
\<close>

theorem probabilities_strictly_inside_unit_interval:
  "(\<forall>(t, p_spam, p_non_spam) \<in> set (words_probabilities (foldl train init batches)).
      0 < p_spam \<and> p_spam < 1 \<and> 0 < p_non_spam \<and> p_non_spam < 1) \<and>
   (\<forall>(t, spam_count, non_spam_count) \<in> set (words_count (foldl train init batches)).
      spam_count \<le> number_of_spam_messages (foldl train init batches) \<and>
      non_spam_count \<le> number_of_non_spam_messages (foldl train init batches))"
  using model_ok_probabilities[OF model_ok_reachable] model_ok_counts[OF model_ok_reachable]
  by blast

theorem probabilities_strictly_inside_unit_interval_witness:
  "(str ''money'', 3/4, 1/4) \<in> set (words_probabilities
      (foldl train init [[(True, str ''win money now'')], [(False, str ''meeting win'')]])) \<and>
   (0::real) < 3/4 \<and> (3/4::real) < 1 \<and> (0::real) < 1/4 \<and> (1/4::real) < 1"
proof -
  let ?m = "foldl train init [[(True, str ''win money now'')], [(False, str ''meeting win'')]]"
  have mem: "(str ''money'', 3/4, 1/4) \<in> set (words_probabilities ?m)"
    by (simp add: train_example)
  from probabilities_strictly_inside_unit_interval[of "[[(True, str ''win money now'')], [(False, str ''meeting win'')]]"]
  have "\<forall>(t, p_spam, p_non_spam) \<in> set (words_probabilities ?m).
      0 < p_spam \<and> p_spam < 1 \<and> 0 < p_non_spam \<and> p_non_spam < 1" by (rule conjunct1)
  from bspec[OF this mem] mem show ?thesis by simp
qed

section \<open>Properties of inference\<close>

text \<open>
  While every stored probability is strictly between 0 and 1, no logarithm raises and
  the loop adds up one term per entry.
\<close>

lemma score_words_sums:
  assumes "\<And>w p q. (w, p, q) \<in> set items \<Longrightarrow> 0 < p \<and> p < 1 \<and> 0 < q \<and> q < 1"
  shows "score_words ws items s n =
     Inr (s + sum_list (map (\<lambda>(token, p_spam, p_non_spam).
                if token \<in> set ws then ln p_spam else ln (1 - p_spam)) items),
          n + sum_list (map (\<lambda>(token, p_spam, p_non_spam).
                if token \<in> set ws then ln p_non_spam else ln (1 - p_non_spam)) items))"
  using assms
proof (induction items arbitrary: s n)
  case Nil
  show ?case by simp
next
  case (Cons item items)
  obtain w p q where item: "item = (w, p, q)" by (cases item)
  from Cons.prems[of w p q] have b: "0 < p" "p < 1" "0 < q" "q < 1" by (simp_all add: item)
  have rest: "0 < p \<and> p < 1 \<and> 0 < q \<and> q < 1" if "(w, p, q) \<in> set items" for w p q
    using Cons.prems[of w p q] that by simp
  show ?case
    using b by (simp add: item py_log_def Cons.IH[OF rest] add.assoc)
qed

text \<open>
  On a model that training builds, both accumulators are sums of logarithms of numbers
  below 1, so \<open>math.exp\<close> cannot overflow on them; it can underflow.
\<close>

lemma sum_list_nonpos:
  fixes f :: "'a \<Rightarrow> real"
  assumes "\<And>x. x \<in> set xs \<Longrightarrow> f x \<le> 0"
  shows "sum_list (map f xs) \<le> 0"
  using assms by (induction xs) (auto intro: add_nonpos_nonpos)

lemma prior_bounds:
  fixes a b :: nat
  shows "0 < (0.5 + real a) / (1 + real a + real b)"
    and "(0.5 + real a) / (1 + real a + real b) < 1"
    and "0 < (0.5 + real b) / (1 + real a + real b)"
    and "(0.5 + real b) / (1 + real a + real b) < 1"
  by (simp_all add: add_pos_nonneg)

lemma ln_unit_nonpos:
  fixes r :: real
  assumes "0 < r" "r < 1"
  shows "ln r \<le> 0"
  using assms by (simp add: ln_le_zero_iff)

lemma py_exp_nonpos:
  assumes "x \<le> 0"
  shows "py_exp x = Inr (exp_double x)"
proof -
  from assms have "exp x \<le> 1" by simp
  moreover have "(1::real) < (2 - 1 / 2 ^ 53) * 2 ^ 1023" by simp
  ultimately have big: "\<not> (2 - 1 / 2 ^ 53) * 2 ^ 1023 \<le> exp x" by linarith
  show ?thesis
  proof (cases "exp x \<le> 1 / 2 ^ 1075")
    case True
    with big show ?thesis by (simp only: py_exp_def exp_double_def if_False if_True)
  next
    case False
    with big show ?thesis by (simp only: py_exp_def exp_double_def if_False)
  qed
qed

lemma model_ok_accumulators:
  assumes ok: "model_ok m"
  shows "spam_acc m text \<le> 0" and "non_spam_acc m text \<le> 0"
proof -
  have p: "0 < p \<and> p < 1 \<and> 0 < q \<and> q < 1" if "(w, p, q) \<in> set (words_probabilities m)"
    for w p q using model_ok_probabilities[OF ok that] .
  have "sum_list (map (\<lambda>(token, p_spam, p_non_spam).
             if token \<in> set (tokenize_words text) then ln p_spam else ln (1 - p_spam))
           (words_probabilities m)) \<le> 0"
    by (rule sum_list_nonpos) (auto dest!: p)
  moreover have "ln ((0.5 + real (number_of_spam_messages m)) /
      (1 + real (number_of_spam_messages m) + real (number_of_non_spam_messages m))) \<le> 0"
    by (rule ln_unit_nonpos[OF prior_bounds(1,2)])
  ultimately show "spam_acc m text \<le> 0"
    unfolding spam_acc_def Let_def by (intro add_nonpos_nonpos)
  have "sum_list (map (\<lambda>(token, p_spam, p_non_spam).
             if token \<in> set (tokenize_words text) then ln p_non_spam else ln (1 - p_non_spam))
           (words_probabilities m)) \<le> 0"
    by (rule sum_list_nonpos) (auto dest!: p)
  moreover have "ln ((0.5 + real (number_of_non_spam_messages m)) /
      (1 + real (number_of_spam_messages m) + real (number_of_non_spam_messages m))) \<le> 0"
    by (rule ln_unit_nonpos[OF prior_bounds(3,4)])
  ultimately show "non_spam_acc m text \<le> 0"
    unfolding non_spam_acc_def Let_def by (intro add_nonpos_nonpos)
qed

lemma model_ok_probability_spam:
  assumes ok: "model_ok m"
  shows "probability_spam m message = classify_spec m message"
proof -
  have s: "score_words (tokenize_words message) (words_probabilities m)
        (ln ((0.5 + real (number_of_spam_messages m)) /
          (1 + real (number_of_spam_messages m) + real (number_of_non_spam_messages m))))
        (ln ((0.5 + real (number_of_non_spam_messages m)) /
          (1 + real (number_of_spam_messages m) + real (number_of_non_spam_messages m)))) =
      Inr (spam_acc m message, non_spam_acc m message)"
    unfolding spam_acc_def non_spam_acc_def Let_def
    by (rule score_words_sums) (rule model_ok_probabilities[OF ok])
  note e = py_exp_nonpos[OF model_ok_accumulators(1)[OF ok, of message]]
    py_exp_nonpos[OF model_ok_accumulators(2)[OF ok, of message]]
  show ?thesis
    unfolding probability_spam_def classify_spec_def Let_def
    by (simp only: py_log_def prior_bounds if_True sum.case s prod.case e py_div_def)
qed

text \<open>Runs of the code on the model of \<open>train_example\<close>.\<close>

lemma exp_numeral_mult:
  fixes x :: real
  shows "exp (numeral k * x) = exp x ^ numeral k"
  using exp_of_nat_mult[of "numeral k" x] by simp

lemma classify_example:
  defines "m \<equiv> train (train init [(True, str ''win money now'')]) [(False, str ''meeting win'')]"
  shows "classify_spec m (str ''win money'') = Inr (3 / 4)"
    and "classify_spec m (str ''meeting'') = Inr (1 / 28)"
proof -
  have t1: "tokenize_words (str ''win money'') = [str ''win'', str ''money'']"
    and t2: "tokenize_words (str ''meeting'') = [str ''meeting'']"
    by (simp_all add: tokenize_words_def lower_def lower_cp_def is_word_char_def str_def)
  have ne: "str ''win'' \<noteq> str ''money''" "str ''win'' \<noteq> str ''now''" "str ''win'' \<noteq> str ''meeting''"
    "str ''money'' \<noteq> str ''now''" "str ''money'' \<noteq> str ''meeting''" "str ''now'' \<noteq> str ''meeting''"
    by (simp_all add: str_def)
  have s1: "exp (spam_acc m (str ''win money'')) = 27 / 512"
    and n1: "exp (non_spam_acc m (str ''win money'')) = 9 / 512"
    and s2: "exp (spam_acc m (str ''meeting'')) = 1 / 512"
    and n2: "exp (non_spam_acc m (str ''meeting'')) = 27 / 512"
    using ne
    by (simp_all add: spam_acc_def non_spam_acc_def m_def train_example t1 t2 exp_add
        exp_numeral_mult power_divide)
  show "classify_spec m (str ''win money'') = Inr (3 / 4)"
    by (simp add: classify_spec_def exp_double_def s1 n1)
  show "classify_spec m (str ''meeting'') = Inr (1 / 28)"
    by (simp add: classify_spec_def exp_double_def s2 n2)
qed

lemma probability_spam_example:
  "probability_spam
     (train (train init [(True, str ''win money now'')]) [(False, str ''meeting win'')])
     (str ''win money'') = Inr (3 / 4)"
  "probability_spam
     (train (train init [(True, str ''win money now'')]) [(False, str ''meeting win'')])
     (str ''meeting'') = Inr (1 / 28)"
proof -
  have ok: "model_ok
      (train (train init [(True, str ''win money now'')]) [(False, str ''meeting win'')])"
    by (intro model_ok_train model_ok_init)
  show "probability_spam
     (train (train init [(True, str ''win money now'')]) [(False, str ''meeting win'')])
     (str ''win money'') = Inr (3 / 4)"
    by (simp only: model_ok_probability_spam[OF ok] classify_example)
  show "probability_spam
     (train (train init [(True, str ''win money now'')]) [(False, str ''meeting win'')])
     (str ''meeting'') = Inr (1 / 28)"
    by (simp only: model_ok_probability_spam[OF ok] classify_example)
qed









text \<open>
  C6. On the untrained model \<open>probability_spam\<close> returns, and returns exactly one half,
  for every text.
\<close>

theorem probability_spam_untrained: "probability_spam init message = Inr (1 / 2)"
  by (simp add: probability_spam_def init_def py_log_def py_exp_def py_div_def)

section \<open>Classification and letter case\<close>

text \<open>A model that knows the one word \<open>i\<close>, and its answers to two texts.\<close>

lemma train_dotted_example:
  "train init [(True, str ''i'')] =
     \<lparr> number_of_spam_messages = 1, number_of_non_spam_messages = 0,
       words_count = [(str ''i'', 1, 0)],
       words_probabilities = [(str ''i'', 3/4, 1/2)] \<rparr>"
  by (simp add: train_def add_messages_def recalculate_probabilities_def add_message_def
      init_def tokenize_words_def lower_def lower_cp_def is_word_char_def count_word_def str_def
      set_probability_def)

lemma classify_dotted_example:
  defines "m \<equiv> train init [(True, str ''i'')]"
  shows "classify_spec m [304] = Inr (3 / 5)"
    and "classify_spec m [105, 775] = Inr (9 / 11)"
proof -
  have t1: "tokenize_words [304] = [[105, 775]]"
    and t2: "tokenize_words [105, 775] = [str ''i'']"
    by (simp_all add: tokenize_words_def lower_def lower_cp_def is_word_char_def str_def)
  have ne: "str ''i'' \<noteq> [105, 775]" by (simp add: str_def)
  have s1: "exp (spam_acc m [304]) = 3 / 16"
    and n1: "exp (non_spam_acc m [304]) = 1 / 8"
    and s2: "exp (spam_acc m [105, 775]) = 9 / 16"
    and n2: "exp (non_spam_acc m [105, 775]) = 1 / 8"
    using ne
    by (simp_all add: spam_acc_def non_spam_acc_def m_def train_dotted_example t1 t2 exp_add
        exp_numeral_mult power_divide)
  show "classify_spec m [304] = Inr (3 / 5)"
    by (simp add: classify_spec_def exp_double_def s1 n1)
  show "classify_spec m [105, 775] = Inr (9 / 11)"
    by (simp add: classify_spec_def exp_double_def s2 n2)
qed

lemma same_up_to_case_example: "same_up_to_case (str ''WIN Money'') (str ''win money'')"
  by (simp add: same_up_to_case_def same_char_up_to_case_def str_def is_word_char_def
      lower_cp_def)

text \<open>
  C9. Two texts that are the same up to case (position by position, two characters of the
  class with the same lower case form, or two characters outside the class) get the same
  result from the same model.
\<close>

theorem probability_spam_case_insensitive:
  assumes "same_up_to_case t1 t2"
  shows "probability_spam m t1 = probability_spam m t2"
  by (simp only: probability_spam_def tokenize_words_same_up_to_case[OF assms])

theorem probability_spam_case_insensitive_witness:
  "same_up_to_case (str ''WIN Money'') (str ''win money'') \<and>
   probability_spam
     (train (train init [(True, str ''win money now'')]) [(False, str ''meeting win'')])
     (str ''WIN Money'') =
   probability_spam
     (train (train init [(True, str ''win money now'')]) [(False, str ''meeting win'')])
     (str ''win money'') \<and>
   probability_spam
     (train (train init [(True, str ''win money now'')]) [(False, str ''meeting win'')])
     (str ''win money'') = Inr (3 / 4) \<and>
   probability_spam
     (train (train init [(True, str ''win money now'')]) [(False, str ''meeting win'')])
     (str ''meeting'') = Inr (1 / 28)"
  using probability_spam_case_insensitive[OF same_up_to_case_example] same_up_to_case_example probability_spam_example
  by (intro conjI)

text \<open>
  C9 as it was stated, for any case variant of a text, fails: the capital I with
  dot (U+0130) is a character of the class, its lower case form is the letter i followed
  by a combining dot, which is not; so the text U+0130 holds the one token "i with dot"
  and its lower case variant holds the token \<open>i\<close>, and a model that knows the word \<open>i\<close>
  gives them different probabilities.
\<close>

theorem probability_spam_dotted_capital_counterexample:
  "lower [304] = [105, 775] \<and>
   probability_spam (train init [(True, str ''i'')]) [304] = Inr (3 / 5) \<and>
   probability_spam (train init [(True, str ''i'')]) [105, 775] = Inr (9 / 11)"
proof -
  have ok: "model_ok (train init [(True, str ''i'')])"
    by (rule model_ok_train[OF model_ok_init])
  have "lower [304] = [105, 775]" by (simp add: lower_def lower_cp_def)
  then show ?thesis
    by (simp only: model_ok_probability_spam[OF ok] classify_dotted_example simp_thms)
qed

end
